theory Spec2Isabelle
  imports Complex_Main "HOL-Library.Countable"
begin

section \<open>Numbers, points and cuts\<close>

text \<open>
  The player works on Python floats. They are modelled as exact rationals: every
  comparison, sum and quotient of the source is the same operation on \<open>rat\<close>, and
  \<open>round(x, 2)\<close> is rounding to two decimals with ties to the even neighbour. Binary
  representation error of floats is outside this model.
\<close>

type_synonym point = "rat \<times> rat"
type_synonym cut = "point \<times> point"

datatype error =
  ZeroDivisionError | ValueError | IndexError | TypeError | NameError | GeometryError

definition round2 :: "rat \<Rightarrow> rat" where
  "round2 x =
     (let y = x * 100; f = \<lfloor>y\<rfloor>; d = y - of_int f
      in of_int (if d < 1 / 2 then f else if 1 / 2 < d then f + 1
                 else if even f then f else f + 1) / 100)"

section \<open>get\_cuts\_spread\<close>

definition get_cuts_spread :: "'a list \<Rightarrow> int \<times> int" where
  "get_cuts_spread requests =
     (let count = int (length requests);
          max_cuts = count - 1;
          min_cuts = count div 3;
          max_cuts = max max_cuts (min_cuts + 1)
      in (min_cuts, max_cuts))"

section \<open>sneak and cuts\_to\_moves\<close>

text \<open>
  \<open>sneak\<close> compares the results of float subtractions with \<open>0.1\<close> and with each other,
  and a binary64 subtraction is rounded: \<open>23.5 - 23.4\<close> is slightly more than \<open>0.1\<close>. The
  subtraction is therefore not computed here but taken as the parameter \<open>sub\<close>, standing
  for the binary64 operation. The results assume of it only what binary64 guarantees for
  every operand: \<open>x - 0 = x\<close> and \<open>x - x = 0\<close>.
\<close>

type_synonym subtraction = "rat \<Rightarrow> rat \<Rightarrow> rat"

definition nearest_edge_x :: "subtraction \<Rightarrow> point \<Rightarrow> rat \<Rightarrow> rat \<times> rat" where
  "nearest_edge_x sub pos cake_width =
     (if sub cake_width (fst pos) < fst pos then (cake_width, sub cake_width (fst pos))
      else (0, fst pos))"

definition nearest_edge_y :: "subtraction \<Rightarrow> point \<Rightarrow> rat \<Rightarrow> rat \<times> rat" where
  "nearest_edge_y sub pos cake_len =
     (if sub cake_len (snd pos) < snd pos then (cake_len, sub cake_len (snd pos))
      else (0, snd pos))"

definition bounce :: "subtraction \<Rightarrow> rat \<Rightarrow> rat" where
  "bounce sub margin = (if margin = 0 then 1 / 100 else round2 (sub margin (1 / 100)))"

definition sneak :: "subtraction \<Rightarrow> point \<Rightarrow> point \<Rightarrow> rat \<Rightarrow> rat \<Rightarrow> point list" where
  "sneak sub start_pos end_pos cake_width cake_len =
     (let (nearest_x, x_dist) = nearest_edge_x sub start_pos cake_width;
          (nearest_y, y_dist) = nearest_edge_y sub start_pos cake_len;
          (end_x, end_x_dist) = nearest_edge_x sub end_pos cake_width;
          (end_y, end_y_dist) = nearest_edge_y sub end_pos cake_len;
          moves =
            (if y_dist = 0 \<and> (x_dist > 1 / 10 \<or> nearest_x \<noteq> end_x) then
               [(end_x, bounce sub nearest_y)] @
               (if end_y_dist > 0 \<or> nearest_y \<noteq> end_y then
                  [(bounce sub end_x, nearest_y)] @
                  (if end_y_dist = 0 then
                     [(bounce sub end_x, end_y), (end_x, bounce sub end_y)]
                   else [])
                else [])
             else if x_dist = 0 \<and> (y_dist > 1 / 10 \<or> nearest_y \<noteq> end_y) then
               [(bounce sub nearest_x, end_y)] @
               (if end_x_dist > 0 \<or> nearest_x \<noteq> end_x then
                  [(nearest_x, bounce sub end_y)] @
                  (if end_x_dist = 0 then
                     [(end_x, bounce sub end_y), (bounce sub end_x, end_y)]
                   else [])
                else [])
             else [])
      in moves @ [end_pos])"

datatype move_kind = INIT | CUT

type_synonym move = "move_kind \<times> point"

text \<open>
  The loop of \<open>cuts_to_moves\<close>: the state is the move list and \<open>last_point\<close>, which is
  \<open>None\<close> until the first cut has been emitted. Reading \<open>last_point\<close> while it is
  \<open>None\<close> would raise in \<open>sneak\<close>.
\<close>

fun cuts_to_moves_loop ::
  "subtraction \<Rightarrow> rat \<Rightarrow> rat \<Rightarrow> cut list \<Rightarrow> move list \<Rightarrow> point option
     \<Rightarrow> error + move list" where
  "cuts_to_moves_loop sub cake_len cake_width [] moves last_point = Inr moves"
| "cuts_to_moves_loop sub cake_len cake_width (c # cs) moves last_point =
     (let from_point = fst c; to_point = snd c
      in if moves = [] then
           cuts_to_moves_loop sub cake_len cake_width cs
             ([(INIT, from_point)] @ [(CUT, to_point)]) (Some to_point)
         else
           (case last_point of
              None \<Rightarrow> Inl TypeError
            | Some lp \<Rightarrow>
                cuts_to_moves_loop sub cake_len cake_width cs
                  (moves @ map (Pair CUT) (sneak sub lp from_point cake_width cake_len)
                     @ [(CUT, to_point)])
                  (Some to_point)))"

definition cuts_to_moves ::
  "subtraction \<Rightarrow> cut list \<Rightarrow> 'r \<Rightarrow> rat \<Rightarrow> rat \<Rightarrow> error + move list" where
  "cuts_to_moves sub cuts requests cake_len cake_width =
     cuts_to_moves_loop sub cake_len cake_width cuts [] None"

section \<open>Geometry primitives and cuts\_to\_polygons\<close>

text \<open>
  Polygons are shapely objects in the source. A polygon is modelled by the vertex list it
  is built from; the operations of shapely and miniball that the player calls are taken
  as parameters, collected in one record: \<open>split\<close> may raise, the others return.
\<close>

datatype polygon = Polygon "point list"

record geometry =
  convex_hull :: "polygon \<Rightarrow> polygon"
  intersects :: "cut \<Rightarrow> polygon \<Rightarrow> bool"
  split :: "polygon \<Rightarrow> cut \<Rightarrow> error + polygon list"
  area :: "polygon \<Rightarrow> rat"
  miniball_radius :: "polygon \<Rightarrow> rat"

definition divide_polygon ::
  "geometry \<Rightarrow> polygon \<Rightarrow> point \<Rightarrow> point \<Rightarrow> error + polygon list" where
  "divide_polygon g polygon from_point to_point =
     (let polygon = convex_hull g polygon;
          line = (from_point, to_point)
      in if \<not> intersects g line polygon then Inr [polygon]
         else (case split g polygon line of
                 Inl e \<Rightarrow> Inl e
               | Inr geoms \<Rightarrow> Inr (map (convex_hull g) geoms)))"

text \<open>The inner loop of \<open>cuts_to_polygons\<close>: one cut applied to every current polygon.\<close>

fun divide_each ::
  "geometry \<Rightarrow> point \<Rightarrow> point \<Rightarrow> polygon list \<Rightarrow> polygon list \<Rightarrow> error + polygon list" where
  "divide_each g from_point to_point [] new_polygons = Inr new_polygons"
| "divide_each g from_point to_point (polygon # rest) new_polygons =
     (case divide_polygon g polygon from_point to_point of
        Inl e \<Rightarrow> Inl e
      | Inr parts \<Rightarrow> divide_each g from_point to_point rest (new_polygons @ parts))"

fun cuts_to_polygons_loop ::
  "geometry \<Rightarrow> cut list \<Rightarrow> polygon list \<Rightarrow> error + polygon list" where
  "cuts_to_polygons_loop g [] polygons = Inr polygons"
| "cuts_to_polygons_loop g (c # cs) polygons =
     (case divide_each g (fst c) (snd c) polygons [] of
        Inl e \<Rightarrow> Inl e
      | Inr new_polygons \<Rightarrow> cuts_to_polygons_loop g cs new_polygons)"

definition cuts_to_polygons ::
  "geometry \<Rightarrow> cut list \<Rightarrow> rat \<Rightarrow> rat \<Rightarrow> error + polygon list" where
  "cuts_to_polygons g cuts cake_len cake_width =
     cuts_to_polygons_loop g cuts
       [Polygon [(0, 0), (0, cake_len), (cake_width, cake_len), (cake_width, 0)]]"

section \<open>Penalty\<close>

definition can_cake_fit_in_plate :: "geometry \<Rightarrow> polygon \<Rightarrow> rat \<Rightarrow> bool" where
  "can_cake_fit_in_plate g cake_piece radius =
     (if area g cake_piece < 1 / 4 then True
      else miniball_radius g cake_piece \<le> radius)"

text \<open>Python's \<open>xs[i]\<close>: a negative index counts from the end, out of range raises.\<close>

definition py_index :: "'a list \<Rightarrow> int \<Rightarrow> error + 'a" where
  "py_index xs i =
     (if 0 \<le> i \<and> i < int (length xs) then Inr (xs ! nat i)
      else if i < 0 \<and> - int (length xs) \<le> i then Inr (xs ! nat (int (length xs) + i))
      else Inl IndexError)"

text \<open>
  The loop of \<open>__calculate_penalty\<close> over \<open>enumerate(assignments)\<close>. The float division
  raises on a zero request.
\<close>

fun calculate_penalty_loop ::
  "geometry \<Rightarrow> rat list \<Rightarrow> polygon list \<Rightarrow> rat \<Rightarrow> (nat \<times> int) list \<Rightarrow> rat \<Rightarrow> error + rat" where
  "calculate_penalty_loop g requests polygons tolerance [] penalty = Inr penalty"
| "calculate_penalty_loop g requests polygons tolerance ((request_index, assignment) # rest)
     penalty =
     (if assignment = - 1 then
        calculate_penalty_loop g requests polygons tolerance rest (penalty + 100)
      else
        (case py_index polygons assignment of
           Inl e \<Rightarrow> Inl e
         | Inr piece \<Rightarrow>
             if \<not> can_cake_fit_in_plate g piece (25 / 2) then
               calculate_penalty_loop g requests polygons tolerance rest (penalty + 100)
             else
               (case py_index requests (int request_index) of
                  Inl e \<Rightarrow> Inl e
                | Inr request \<Rightarrow>
                    if request = 0 then Inl ZeroDivisionError
                    else
                      (let penalty_percentage = 100 * \<bar>area g piece - request\<bar> / request
                       in if penalty_percentage > tolerance then
                            calculate_penalty_loop g requests polygons tolerance rest
                              (penalty + penalty_percentage)
                          else
                            calculate_penalty_loop g requests polygons tolerance rest
                              penalty))))"

type_synonym assigner = "polygon list \<Rightarrow> rat list \<Rightarrow> rat \<Rightarrow> int list"

definition calculate_penalty ::
  "geometry \<Rightarrow> assigner \<Rightarrow> rat list \<Rightarrow> polygon list \<Rightarrow> rat \<Rightarrow> error + rat" where
  "calculate_penalty g assign_func requests polygons tolerance =
     (let assignments = assign_func polygons requests tolerance
      in calculate_penalty_loop g requests polygons tolerance
           (enumerate 0 assignments) 0)"

text \<open>
  \<open>penalty\<close> scores a cut set with \<open>greedy_best_fit_assignment\<close>. That function lives in
  \<open>players.g2.assigns\<close>, which is not among the sources, so the assigner is a parameter.
\<close>

definition penalty ::
  "geometry \<Rightarrow> assigner \<Rightarrow> cut list \<Rightarrow> rat list \<Rightarrow> rat \<Rightarrow> rat \<Rightarrow> rat \<Rightarrow> error + rat" where
  "penalty g greedy_best_fit_assignment cuts requests cake_len cake_width tolerance =
     (case cuts_to_polygons g cuts cake_len cake_width of
        Inl e \<Rightarrow> Inl e
      | Inr polygons \<Rightarrow>
          calculate_penalty g greedy_best_fit_assignment requests polygons tolerance)"

text \<open>
  The penalty as the specification words it: one term per request, summed. The term of a
  request is 100 when it is unassigned or its piece fails the plate check, the percentage
  error when that exceeds the tolerance, and 0 otherwise.
\<close>

definition request_penalty ::
  "geometry \<Rightarrow> rat list \<Rightarrow> polygon list \<Rightarrow> rat \<Rightarrow> nat \<Rightarrow> int \<Rightarrow> rat" where
  "request_penalty g requests polygons tolerance i a =
     (if a = - 1 \<or> \<not> can_cake_fit_in_plate g (polygons ! nat a) (25 / 2) then 100
      else if 100 * \<bar>area g (polygons ! nat a) - requests ! i\<bar> / (requests ! i) > tolerance
      then 100 * \<bar>area g (polygons ! nat a) - requests ! i\<bar> / (requests ! i)
      else 0)"

definition spec_penalty ::
  "geometry \<Rightarrow> rat list \<Rightarrow> polygon list \<Rightarrow> rat \<Rightarrow> int list \<Rightarrow> rat" where
  "spec_penalty g requests polygons tolerance assignments =
     (\<Sum>i < length assignments. request_penalty g requests polygons tolerance i (assignments ! i))"

section \<open>The random source\<close>

text \<open>
  The source draws from Python's global generator. The model threads the generator's
  state through every function that draws: a supply of integers for \<open>random.sample\<close> and
  a supply of numbers for \<open>random.random()\<close>, each read from the front. A theorem that
  quantifies over the state covers every outcome of the random choices.
\<close>

record random_state =
  ints :: "nat \<Rightarrow> nat"
  floats :: "nat \<Rightarrow> rat"

definition skip_ints :: "nat \<Rightarrow> random_state \<Rightarrow> random_state" where
  "skip_ints n r = r\<lparr>ints := (\<lambda>k. ints r (k + n))\<rparr>"

definition skip_floats :: "nat \<Rightarrow> random_state \<Rightarrow> random_state" where
  "skip_floats n r = r\<lparr>floats := (\<lambda>k. floats r (k + n))\<rparr>"

text \<open>\<open>random.random()\<close>.\<close>

definition random_random :: "random_state \<Rightarrow> rat \<times> random_state" where
  "random_random r = (floats r 0, skip_floats 1 r)"

text \<open>
  \<open>random.sample(population, 1)[0]\<close>: any element of the population, chosen by the next
  integer; an empty population raises.
\<close>

definition sample1 :: "'a list \<Rightarrow> random_state \<Rightarrow> error + ('a \<times> random_state)" where
  "sample1 population r =
     (if population = [] then Inl ValueError
      else Inr (population ! (ints r 0 mod length population), skip_ints 1 r))"

text \<open>
  \<open>random.sample(population, 2)\<close>: two elements at different positions, in either
  order; fewer than two elements raise.
\<close>

definition sample2 :: "'a list \<Rightarrow> random_state \<Rightarrow> error + (('a \<times> 'a) \<times> random_state)" where
  "sample2 population r =
     (if length population < 2 then Inl ValueError
      else
        (let i = ints r 0 mod length population;
             j = ints r 1 mod (length population - 1);
             j = (if i \<le> j then j + 1 else j)
         in Inr ((population ! i, population ! j), skip_ints 2 r)))"

section \<open>generate\_cuts\<close>

text \<open>
  The four edge lists. The quotient \<open>cake_len * i / GAP\<close> raises when \<open>jumps\<close> is 1;
  \<open>generate_cuts\<close> checks that before it builds the lists.
\<close>

definition LEFT :: "rat \<Rightarrow> rat \<Rightarrow> nat \<Rightarrow> point list" where
  "LEFT cake_len cake_width jumps =
     map (\<lambda>i. (0, round2 (cake_len * of_nat i / (of_nat jumps - 1)))) [0..<jumps]"

definition RIGHT :: "rat \<Rightarrow> rat \<Rightarrow> nat \<Rightarrow> point list" where
  "RIGHT cake_len cake_width jumps =
     map (\<lambda>i. (cake_width, round2 (cake_len * of_nat i / (of_nat jumps - 1)))) [0..<jumps]"

definition UP :: "rat \<Rightarrow> rat \<Rightarrow> nat \<Rightarrow> point list" where
  "UP cake_len cake_width jumps =
     map (\<lambda>i. (round2 (cake_width * of_nat i / (of_nat jumps - 1)), 0)) [0..<jumps]"

definition DOWN :: "rat \<Rightarrow> rat \<Rightarrow> nat \<Rightarrow> point list" where
  "DOWN cake_len cake_width jumps =
     map (\<lambda>i. (round2 (cake_width * of_nat i / (of_nat jumps - 1)), cake_len)) [0..<jumps]"

text \<open>\<open>points\<close> is a set in the source; here a list without repetitions.\<close>

definition points_of :: "rat \<Rightarrow> rat \<Rightarrow> nat \<Rightarrow> point list" where
  "points_of cake_len cake_width jumps =
     remdups (LEFT cake_len cake_width jumps @ RIGHT cake_len cake_width jumps @
              UP cake_len cake_width jumps @ DOWN cake_len cake_width jumps)"

text \<open>
  The population \<open>to_point\<close> is drawn from: the points without the first edge list, in
  the order \<open>LEFT\<close>, \<open>RIGHT\<close>, \<open>UP\<close>, \<open>DOWN\<close>, that holds \<open>from_point\<close>.
\<close>

definition to_points :: "rat \<Rightarrow> rat \<Rightarrow> nat \<Rightarrow> point \<Rightarrow> point list" where
  "to_points cake_len cake_width jumps from_point =
     (let points = points_of cake_len cake_width jumps
      in if from_point \<in> set (LEFT cake_len cake_width jumps) then
           filter (\<lambda>p. p \<notin> set (LEFT cake_len cake_width jumps)) points
         else if from_point \<in> set (RIGHT cake_len cake_width jumps) then
           filter (\<lambda>p. p \<notin> set (RIGHT cake_len cake_width jumps)) points
         else if from_point \<in> set (UP cake_len cake_width jumps) then
           filter (\<lambda>p. p \<notin> set (UP cake_len cake_width jumps)) points
         else
           filter (\<lambda>p. p \<notin> set (DOWN cake_len cake_width jumps)) points)"

text \<open>One pass of the loop body up to the membership test: the two draws.\<close>

definition draw_cut ::
  "rat \<Rightarrow> rat \<Rightarrow> nat \<Rightarrow> random_state \<Rightarrow> error + (cut \<times> random_state)" where
  "draw_cut cake_len cake_width jumps r =
     (case sample1 (points_of cake_len cake_width jumps) r of
        Inl e \<Rightarrow> Inl e
      | Inr (from_point, r1) \<Rightarrow>
          (case sample1 (to_points cake_len cake_width jumps from_point) r1 of
             Inl e \<Rightarrow> Inl e
           | Inr (to_point, r2) \<Rightarrow> Inr ((from_point, to_point), r2)))"

text \<open>\<open>selected\<close> is a set in the source; here the list of its members as they were added.\<close>

definition add_cut :: "cut list \<Rightarrow> cut \<Rightarrow> cut list" where
  "add_cut selected c =
     (if (fst c, snd c) \<notin> set selected \<and> (snd c, fst c) \<notin> set selected
      then selected @ [(fst c, snd c)] else selected)"

text \<open>
  The rejection loop. It has no bound in the source, so the model is a partial function:
  \<open>None\<close> is a run that never leaves the loop.
\<close>

partial_function (option) generate_cuts_loop ::
  "nat \<Rightarrow> rat \<Rightarrow> rat \<Rightarrow> nat \<Rightarrow> cut list \<Rightarrow> random_state
     \<Rightarrow> (error + (cut list \<times> random_state)) option" where
  "generate_cuts_loop cuts cake_len cake_width jumps selected r =
     (if length selected < cuts then
        (case draw_cut cake_len cake_width jumps r of
           Inl e \<Rightarrow> Some (Inl e)
         | Inr (c, r') \<Rightarrow>
             generate_cuts_loop cuts cake_len cake_width jumps (add_cut selected c) r')
      else Some (Inr (selected, r)))"

declare generate_cuts_loop.simps [code]

definition generate_cuts ::
  "nat \<Rightarrow> rat \<Rightarrow> rat \<Rightarrow> nat \<Rightarrow> random_state \<Rightarrow> (error + (cut list \<times> random_state)) option" where
  "generate_cuts cuts cake_len cake_width jumps r =
     (if jumps = 1 then Some (Inl ZeroDivisionError)
      else generate_cuts_loop cuts cake_len cake_width jumps [] r)"

section \<open>create\_offspring, combined\_cuts and shake\<close>

text \<open>
  A candidate holds, for every cut of the base cut set, a pair of offsets, one per
  endpoint. The source keeps it as nested lists; here it is a list of pairs of points.
\<close>

type_synonym genome = "point \<times> point"
type_synonym candidate = "genome list"

text \<open>
  The mutation of one genome, for a draw \<open>mut < MUTATION_PROB\<close>. The four inner branches
  follow the source line by line, including the test of the last branch, which reads
  \<open>r[1]\<close> and \<open>cake_len\<close>.
\<close>

definition mutate :: "cut \<Rightarrow> genome \<Rightarrow> rat \<Rightarrow> rat \<Rightarrow> rat \<Rightarrow> genome" where
  "mutate c genome mut cake_len cake_width =
     (let MUTATION_PROB = 2 / 5; MUTATION_DIST = 1 / 10;
          l = fst c; r = snd c;
          g0 = fst genome; g1 = snd genome
      in if mut < MUTATION_PROB / 2 then
           (if fst l = 0 \<or> fst l = cake_width then
              (if mut < MUTATION_PROB / 4 \<and> snd l + snd g0 + MUTATION_DIST < cake_len then
                 ((fst g0, snd g0 + MUTATION_DIST), g1)
               else if 0 < snd l + snd g0 - MUTATION_DIST then
                 ((fst g0, snd g0 - MUTATION_DIST), g1)
               else genome)
            else if snd l = 0 \<or> snd l = cake_len then
              (if mut < MUTATION_PROB / 4 \<and> fst l + fst g0 + MUTATION_DIST < cake_width then
                 ((fst g0 + MUTATION_DIST, snd g0), g1)
               else if 0 < fst l + fst g0 - MUTATION_DIST then
                 ((fst g0 - MUTATION_DIST, snd g0), g1)
               else genome)
            else genome)
         else
           (if fst r = 0 \<or> fst r = cake_width then
              (if mut - MUTATION_PROB / 2 < MUTATION_PROB / 4 \<and>
                  snd r + snd g1 + MUTATION_DIST < cake_len then
                 (g0, (fst g1, snd g1 + MUTATION_DIST))
               else if 0 < snd r + snd g1 - MUTATION_DIST then
                 (g0, (fst g1, snd g1 - MUTATION_DIST))
               else genome)
            else if snd r = 0 \<or> snd r = cake_len then
              (if mut - MUTATION_PROB / 2 < MUTATION_PROB / 4 \<and>
                  snd r + fst g1 + MUTATION_DIST < cake_len then
                 (g0, (fst g1 + MUTATION_DIST, snd g1))
               else if 0 < fst r + fst g1 - MUTATION_DIST then
                 (g0, (fst g1 - MUTATION_DIST, snd g1))
               else genome)
            else genome))"

definition round_genome :: "genome \<Rightarrow> genome" where
  "round_genome genome =
     ((round2 (fst (fst genome)), round2 (snd (fst genome))),
      (round2 (fst (snd genome)), round2 (snd (snd genome))))"

text \<open>The loop of \<open>create_offspring\<close> over \<open>range(len(c1))\<close>.\<close>

fun create_offspring_loop ::
  "cut list \<Rightarrow> candidate \<Rightarrow> candidate \<Rightarrow> rat \<Rightarrow> rat \<Rightarrow> nat list \<Rightarrow> candidate
     \<Rightarrow> random_state \<Rightarrow> error + (candidate \<times> random_state)" where
  "create_offspring_loop cuts c1 c2 cake_len cake_width [] offspring r = Inr (offspring, r)"
| "create_offspring_loop cuts c1 c2 cake_len cake_width (idx # rest) offspring r =
     (let (toss, r1) = random_random r
      in case (if toss < 1 / 2 then py_index c1 (int idx) else py_index c2 (int idx)) of
           Inl e \<Rightarrow> Inl e
         | Inr genome \<Rightarrow>
             (let (mut, r2) = random_random r1
              in case (if mut < 2 / 5 then
                         (case py_index cuts (int idx) of
                            Inl e \<Rightarrow> Inl e
                          | Inr c \<Rightarrow> Inr (mutate c genome mut cake_len cake_width))
                       else Inr genome) of
                   Inl e \<Rightarrow> Inl e
                 | Inr genome \<Rightarrow>
                     create_offspring_loop cuts c1 c2 cake_len cake_width rest
                       (offspring @ [round_genome genome]) r2))"

definition create_offspring ::
  "cut list \<Rightarrow> candidate \<Rightarrow> candidate \<Rightarrow> rat \<Rightarrow> rat \<Rightarrow> random_state
     \<Rightarrow> error + (candidate \<times> random_state)" where
  "create_offspring cuts c1 c2 cake_len cake_width r =
     create_offspring_loop cuts c1 c2 cake_len cake_width [0..<length c1] [] r"

text \<open>
  \<open>combined_cuts\<close> adds a candidate's offsets to the base endpoints and rounds. A
  candidate shorter than the cut set raises in the comprehension.
\<close>

definition combine_point :: "point \<Rightarrow> point \<Rightarrow> point" where
  "combine_point p off = (round2 (fst p + fst off), round2 (snd p + snd off))"

definition combined_cuts :: "cut list \<Rightarrow> candidate \<Rightarrow> error + cut list" where
  "combined_cuts cuts candidate =
     (if length candidate < length cuts then Inl IndexError
      else Inr (map (\<lambda>(c, genome). (combine_point (fst c) (fst genome),
                                     combine_point (snd c) (snd genome)))
                 (zip cuts candidate)))"

text \<open>
  The sort key of \<open>sort_candidates\<close>, and the sort: \<open>list.sort\<close> computes the key of
  every candidate first, so a key that raises aborts the sort; the sort is stable.
\<close>

definition score ::
  "geometry \<Rightarrow> assigner \<Rightarrow> cut list \<Rightarrow> rat list \<Rightarrow> rat \<Rightarrow> rat \<Rightarrow> rat \<Rightarrow> candidate
     \<Rightarrow> error + rat" where
  "score g assign cuts requests cake_len cake_width tolerance c =
     (case combined_cuts cuts c of
        Inl e \<Rightarrow> Inl e
      | Inr cc \<Rightarrow> penalty g assign cc requests cake_len cake_width tolerance)"

fun all_keys :: "('a \<Rightarrow> error + 'k) \<Rightarrow> 'a list \<Rightarrow> error + ('k \<times> 'a) list" where
  "all_keys key [] = Inr []"
| "all_keys key (x # xs) =
     (case key x of
        Inl e \<Rightarrow> Inl e
      | Inr k \<Rightarrow> (case all_keys key xs of Inl e \<Rightarrow> Inl e | Inr kxs \<Rightarrow> Inr ((k, x) # kxs)))"

definition sort_candidates ::
  "geometry \<Rightarrow> assigner \<Rightarrow> cut list \<Rightarrow> candidate list \<Rightarrow> rat list \<Rightarrow> rat \<Rightarrow> rat \<Rightarrow> rat
     \<Rightarrow> error + candidate list" where
  "sort_candidates g assign cuts candidates requests cake_len cake_width tolerance =
     (case all_keys (score g assign cuts requests cake_len cake_width tolerance) candidates of
        Inl e \<Rightarrow> Inl e
      | Inr keyed \<Rightarrow> Inr (map snd (sort_key fst keyed)))"

text \<open>\<open>float("inf")\<close> and the finite floats, with Python's \<open><\<close>.\<close>

datatype pyfloat = Fin rat | PosInf

fun float_lt :: "pyfloat \<Rightarrow> pyfloat \<Rightarrow> bool" where
  "float_lt (Fin x) (Fin y) = (x < y)"
| "float_lt (Fin x) PosInf = True"
| "float_lt PosInf y = False"

text \<open>The loop that fills the population up to \<open>NUM_CANDIDATES\<close>.\<close>

function fill_population ::
  "cut list \<Rightarrow> rat \<Rightarrow> rat \<Rightarrow> candidate list \<Rightarrow> random_state
     \<Rightarrow> error + (candidate list \<times> random_state)" where
  "fill_population cuts cake_len cake_width candidates r =
     (if length candidates < 20 then
        (case sample2 candidates r of
           Inl e \<Rightarrow> Inl e
         | Inr ((c1, c2), r1) \<Rightarrow>
             (case create_offspring cuts c1 c2 cake_len cake_width r1 of
                Inl e \<Rightarrow> Inl e
              | Inr (offspring, r2) \<Rightarrow>
                  fill_population cuts cake_len cake_width (candidates @ [offspring]) r2))
      else Inr (candidates, r))"
  by pat_completeness auto
termination
  by (relation "measure (\<lambda>(cuts, cake_len, cake_width, candidates, r). 20 - length candidates)")
    auto

declare fill_population.simps [simp del]

text \<open>
  The epoch loop. Nothing in the source bounds the number of epochs, so the model is
  a partial function. The \<open>print\<close> of every epoch evaluates \<open>penalty(cuts, ...)\<close>, which
  can raise.
\<close>

partial_function (option) shake_loop ::
  "geometry \<Rightarrow> assigner \<Rightarrow> cut list \<Rightarrow> rat list \<Rightarrow> rat \<Rightarrow> rat \<Rightarrow> rat \<Rightarrow>
   candidate list \<Rightarrow> pyfloat \<Rightarrow> nat \<Rightarrow> nat \<Rightarrow> random_state
     \<Rightarrow> (error + (candidate list \<times> random_state)) option" where
  "shake_loop g assign cuts requests cake_len cake_width tolerance
     candidates min_penalty best_epoc curr_epoc r =
     (if float_lt (Fin 0) min_penalty \<and> curr_epoc < best_epoc + 30 then
        (case fill_population cuts cake_len cake_width candidates r of
           Inl e \<Rightarrow> Some (Inl e)
         | Inr (candidates, r) \<Rightarrow>
             (case sort_candidates g assign cuts candidates requests cake_len cake_width
                     tolerance of
                Inl e \<Rightarrow> Some (Inl e)
              | Inr candidates \<Rightarrow>
                  (let candidates = take (length candidates - 6) candidates
                   in case penalty g assign cuts requests cake_len cake_width tolerance of
                        Inl e \<Rightarrow> Some (Inl e)
                      | Inr p \<Rightarrow>
                          (case py_index candidates 0 of
                             Inl e \<Rightarrow> Some (Inl e)
                           | Inr best \<Rightarrow>
                               (case score g assign cuts requests cake_len cake_width
                                       tolerance best of
                                  Inl e \<Rightarrow> Some (Inl e)
                                | Inr curr_penalty \<Rightarrow>
                                    (let curr_epoc = curr_epoc + 1
                                     in if float_lt (Fin curr_penalty) min_penalty then
                                          shake_loop g assign cuts requests cake_len
                                            cake_width tolerance candidates
                                            (Fin curr_penalty) curr_epoc curr_epoc r
                                        else
                                          shake_loop g assign cuts requests cake_len
                                            cake_width tolerance candidates
                                            min_penalty best_epoc curr_epoc r))))))
      else Some (Inr (candidates, r)))"

declare shake_loop.simps [code]

definition shake ::
  "geometry \<Rightarrow> assigner \<Rightarrow> cut list \<Rightarrow> rat list \<Rightarrow> pyfloat \<Rightarrow> rat \<Rightarrow> rat \<Rightarrow> rat
     \<Rightarrow> random_state \<Rightarrow> (error + (cut list \<times> random_state)) option" where
  "shake g assign cuts requests pen cake_len cake_width tolerance r =
     (let zero = replicate (length cuts) ((0, 0), (0, 0));
          candidates = [zero, zero]
      in case fill_population cuts cake_len cake_width candidates r of
           Inl e \<Rightarrow> Some (Inl e)
         | Inr (candidates, r) \<Rightarrow>
             (case sort_candidates g assign cuts candidates requests cake_len cake_width
                     tolerance of
                Inl e \<Rightarrow> Some (Inl e)
              | Inr candidates \<Rightarrow>
                  (let candidates = take (length candidates - 6) candidates
                   in case shake_loop g assign cuts requests cake_len cake_width tolerance
                             candidates pen 0 0 r of
                        None \<Rightarrow> None
                      | Some (Inl e) \<Rightarrow> Some (Inl e)
                      | Some (Inr (candidates, r)) \<Rightarrow>
                          (case py_index candidates 0 of
                             Inl e \<Rightarrow> Some (Inl e)
                           | Inr best \<Rightarrow>
                               (case combined_cuts cuts best of
                                  Inl e \<Rightarrow> Some (Inl e)
                                | Inr result \<Rightarrow> Some (Inr (result, r)))))))"

section \<open>best\_combo\<close>

text \<open>
  The variables of the search that are live after its loop. \<open>s_cuts\<close> is the loop
  variable \<open>cuts\<close>, unbound until the loop has started.
\<close>

record search_state =
  s_best_cuts :: "cut list"
  s_min_penalty :: pyfloat
  s_best_cut_no :: nat
  s_cuts :: "nat option"

text \<open>
  The trials of one cut count. \<open>curr_best_cuts\<close> is never assigned in the source, so the
  test \<open>not curr_best_cuts\<close> holds in every trial. \<open>best_contender\<close> starts as
  \<open>float("inf")\<close> in the source and is a cut set from the first trial on; the model starts
  it as the empty list.
\<close>

fun search_trials ::
  "geometry \<Rightarrow> assigner \<Rightarrow> rat list \<Rightarrow> rat \<Rightarrow> rat \<Rightarrow> rat \<Rightarrow> nat \<Rightarrow> nat \<Rightarrow>
   cut list \<Rightarrow> cut list \<Rightarrow> pyfloat \<Rightarrow> random_state
     \<Rightarrow> (error + ((cut list \<times> pyfloat) \<times> random_state)) option" where
  "search_trials g assign requests cake_len cake_width tolerance cuts 0
     curr_best_cuts best_contender best_curr_penalty r =
     Some (Inr ((best_contender, best_curr_penalty), r))"
| "search_trials g assign requests cake_len cake_width tolerance cuts (Suc n)
     curr_best_cuts best_contender best_curr_penalty r =
     (case generate_cuts cuts cake_len cake_width 6 r of
        None \<Rightarrow> None
      | Some (Inl e) \<Rightarrow> Some (Inl e)
      | Some (Inr (cuts_contender, r1)) \<Rightarrow>
          (case penalty g assign cuts_contender requests cake_len cake_width tolerance of
             Inl e \<Rightarrow> Some (Inl e)
           | Inr curr_penalty \<Rightarrow>
               if curr_best_cuts = [] \<or> float_lt (Fin curr_penalty) best_curr_penalty then
                 search_trials g assign requests cake_len cake_width tolerance cuts n
                   curr_best_cuts cuts_contender (Fin curr_penalty) r1
               else
                 search_trials g assign requests cake_len cake_width tolerance cuts n
                   curr_best_cuts best_contender best_curr_penalty r1))"

text \<open>The loop over \<open>range(min_cuts, max_cuts + 1)\<close>, with its \<open>break\<close>.\<close>

fun search_loop ::
  "geometry \<Rightarrow> assigner \<Rightarrow> rat list \<Rightarrow> rat \<Rightarrow> rat \<Rightarrow> rat \<Rightarrow> nat list \<Rightarrow>
   search_state \<Rightarrow> random_state \<Rightarrow> (error + (search_state \<times> random_state)) option" where
  "search_loop g assign requests cake_len cake_width tolerance [] st r = Some (Inr (st, r))"
| "search_loop g assign requests cake_len cake_width tolerance (cuts # rest) st r =
     (let st = st\<lparr>s_cuts := Some cuts\<rparr>
      in if s_best_cut_no st + 5 < cuts then Some (Inr (st, r))
         else
           (case search_trials g assign requests cake_len cake_width tolerance cuts 200
                   [] [] PosInf r of
              None \<Rightarrow> None
            | Some (Inl e) \<Rightarrow> Some (Inl e)
            | Some (Inr ((best_contender, best_curr_penalty), r1)) \<Rightarrow>
                if s_best_cuts st = [] \<or> float_lt best_curr_penalty (s_min_penalty st) then
                  search_loop g assign requests cake_len cake_width tolerance rest
                    (st\<lparr>s_best_cuts := best_contender, s_min_penalty := best_curr_penalty,
                        s_best_cut_no := cuts\<rparr>) r1
                else
                  search_loop g assign requests cake_len cake_width tolerance rest st r1))"

text \<open>Part 1 of \<open>best_combo\<close>, the search, up to the state it leaves behind.\<close>

definition best_combo_search ::
  "geometry \<Rightarrow> assigner \<Rightarrow> rat list \<Rightarrow> rat \<Rightarrow> rat \<Rightarrow> rat \<Rightarrow> random_state
     \<Rightarrow> (error + (search_state \<times> random_state)) option" where
  "best_combo_search g assign requests cake_len cake_width tolerance r =
     (let (min_cuts, max_cuts) = get_cuts_spread requests
      in search_loop g assign requests cake_len cake_width tolerance
           (map nat [min_cuts..max_cuts])
           \<lparr>s_best_cuts = [], s_min_penalty = PosInf, s_best_cut_no = nat min_cuts,
            s_cuts = None\<rparr> r)"

text \<open>The trials of the spam pass, for the cut count it is given.\<close>

fun spam_trials ::
  "geometry \<Rightarrow> assigner \<Rightarrow> rat list \<Rightarrow> rat \<Rightarrow> rat \<Rightarrow> rat \<Rightarrow> nat \<Rightarrow> nat \<Rightarrow>
   cut list \<Rightarrow> pyfloat \<Rightarrow> random_state
     \<Rightarrow> (error + ((cut list \<times> pyfloat) \<times> random_state)) option" where
  "spam_trials g assign requests cake_len cake_width tolerance cuts 0 best_cuts min_penalty r =
     Some (Inr ((best_cuts, min_penalty), r))"
| "spam_trials g assign requests cake_len cake_width tolerance cuts (Suc n)
     best_cuts min_penalty r =
     (case generate_cuts cuts cake_len cake_width 12 r of
        None \<Rightarrow> None
      | Some (Inl e) \<Rightarrow> Some (Inl e)
      | Some (Inr (cuts_contender, r1)) \<Rightarrow>
          (case penalty g assign cuts_contender requests cake_len cake_width tolerance of
             Inl e \<Rightarrow> Some (Inl e)
           | Inr curr_penalty \<Rightarrow>
               if float_lt (Fin curr_penalty) min_penalty then
                 spam_trials g assign requests cake_len cake_width tolerance cuts n
                   cuts_contender (Fin curr_penalty) r1
               else
                 spam_trials g assign requests cake_len cake_width tolerance cuts n
                   best_cuts min_penalty r1))"

text \<open>
  \<open>best_combo\<close>: search, spam, shake. The spam pass is given \<open>cuts\<close>, the loop variable of
  the search, as the source has it.
\<close>

definition best_combo ::
  "geometry \<Rightarrow> assigner \<Rightarrow> rat list \<Rightarrow> rat \<Rightarrow> rat \<Rightarrow> rat \<Rightarrow> random_state
     \<Rightarrow> (error + (cut list \<times> random_state)) option" where
  "best_combo g assign requests cake_len cake_width tolerance r =
     (case best_combo_search g assign requests cake_len cake_width tolerance r of
        None \<Rightarrow> None
      | Some (Inl e) \<Rightarrow> Some (Inl e)
      | Some (Inr (st, r1)) \<Rightarrow>
          (case s_cuts st of
             None \<Rightarrow> Some (Inl NameError)
           | Some cuts \<Rightarrow>
               (case spam_trials g assign requests cake_len cake_width tolerance cuts 2000
                       (s_best_cuts st) (s_min_penalty st) r1 of
                  None \<Rightarrow> None
                | Some (Inl e) \<Rightarrow> Some (Inl e)
                | Some (Inr ((best_cuts, min_penalty), r2)) \<Rightarrow>
                    shake g assign best_cuts requests min_penalty cake_len cake_width
                      tolerance r2)))"

section \<open>Notions used in the results\<close>

subsection \<open>Feasible cut counts and fair random states\<close>

text \<open>A cut compared without regard to the order of its endpoints.\<close>

definition unordered :: "cut \<Rightarrow> point set" where
  "unordered c = {fst c, snd c}"

text \<open>Every pair \<open>(from_point, to_point)\<close> that one pass of the loop can draw.\<close>

definition all_draws :: "rat \<Rightarrow> rat \<Rightarrow> nat \<Rightarrow> cut list" where
  "all_draws cake_len cake_width jumps =
     concat (map (\<lambda>p. map (Pair p) (to_points cake_len cake_width jumps p))
               (points_of cake_len cake_width jumps))"

text \<open>
  The number of distinct cuts that the loop can draw: the pairs of \<open>all_draws\<close> counted
  without regard to the order of their endpoints. A corner lies in two edge lists and only
  the first of them is taken out of the population of \<open>to_point\<close>, so this number counts,
  besides the cuts between different edges, the cuts that start at a corner and run along
  the second edge of that corner.
\<close>

definition drawable_cut_count :: "rat \<Rightarrow> rat \<Rightarrow> nat \<Rightarrow> nat" where
  "drawable_cut_count cake_len cake_width jumps =
     card (unordered ` set (all_draws cake_len cake_width jumps))"

text \<open>
  The pair that the pass number \<open>t\<close> of the loop draws from a random state: each pass
  reads two integers.
\<close>

definition nth_draw :: "rat \<Rightarrow> rat \<Rightarrow> nat \<Rightarrow> random_state \<Rightarrow> nat \<Rightarrow> cut" where
  "nth_draw cake_len cake_width jumps r t =
     (let points = points_of cake_len cake_width jumps;
          from_point = points ! (ints r (2 * t) mod length points);
          tos = to_points cake_len cake_width jumps from_point
      in (from_point, tos ! (ints r (2 * t + 1) mod length tos)))"

text \<open>
  A random state is fair when every drawable pair keeps coming up. Uniform sampling yields
  such a sequence with probability 1; a sequence that repeats one pair for ever, which
  has probability 0, is not fair.
\<close>

definition fair_draws :: "rat \<Rightarrow> rat \<Rightarrow> nat \<Rightarrow> random_state \<Rightarrow> bool" where
  "fair_draws cake_len cake_width jumps r =
     (\<forall>c \<in> set (all_draws cake_len cake_width jumps).
        \<forall>m. \<exists>t \<ge> m. nth_draw cake_len cake_width jumps r t = c)"

text \<open>The invariant of \<open>selected\<close>: drawable pairs, distinct as unordered pairs.\<close>

definition distinct_cuts :: "rat \<Rightarrow> rat \<Rightarrow> nat \<Rightarrow> cut list \<Rightarrow> bool" where
  "distinct_cuts cake_len cake_width jumps selected =
     (set selected \<subseteq> set (all_draws cake_len cake_width jumps) \<and>
      distinct (map unordered selected))"

text \<open>
  A supply of integers in which every pair of naturals occurs at an even position, used
  as a concrete fair random state.
\<close>

definition universal_ints :: "nat \<Rightarrow> nat" where
  "universal_ints n =
     (if even n then fst (prod_decode (n div 2)) else snd (prod_decode (n div 2)))"








subsection \<open>A concrete geometry for examples\<close>



text \<open>A geometry in which no cut meets a polygon: every cut set leaves the one rectangle.\<close>

definition flat_geometry :: geometry where
  "flat_geometry =
     \<lparr>convex_hull = (\<lambda>p. p), intersects = (\<lambda>l p. False),
      split = (\<lambda>p l. Inl GeometryError), area = (\<lambda>p. 100), miniball_radius = (\<lambda>p. 6)\<rparr>"


text \<open>Two points on one edge of the domain, as the geometry has it.\<close>

definition on_same_edge :: "point \<Rightarrow> point \<Rightarrow> rat \<Rightarrow> rat \<Rightarrow> bool" where
  "on_same_edge p q cake_width cake_len =
     ((fst p = 0 \<and> fst q = 0) \<or> (fst p = cake_width \<and> fst q = cake_width) \<or>
      (snd p = 0 \<and> snd q = 0) \<or> (snd p = cake_len \<and> snd q = cake_len))"



section \<open>Results\<close>

text \<open>
  C6. For every request list, \<open>get_cuts_spread\<close> returns \<open>len // 3\<close> as the minimum
  and \<open>len - 1\<close> as the maximum, the maximum being raised to \<open>min + 1\<close> when it would
  be at most the minimum; the maximum is always greater than the minimum.
\<close>

theorem get_cuts_spread_bounds:
  "get_cuts_spread requests =
     (int (length requests) div 3,
      if int (length requests) - 1 \<le> int (length requests) div 3
      then int (length requests) div 3 + 1 else int (length requests) - 1)
   \<and> fst (get_cuts_spread requests) < snd (get_cuts_spread requests)"
  by (simp add: get_cuts_spread_def Let_def max_def)

text \<open>
  C10. For the empty cut list \<open>cuts_to_moves\<close> returns the empty move sequence: it
  holds no \<open>INIT\<close> move and no \<open>CUT\<close> move.
\<close>

theorem cuts_to_moves_empty:
  "cuts_to_moves sub [] requests cake_len cake_width = Inr []"
  by (simp add: cuts_to_moves_def)

text \<open>
  C8. Applying \<open>cuts_to_polygons\<close> to the empty cut list yields exactly one piece, the
  starting rectangle with corners \<open>(0, 0)\<close>, \<open>(0, cake_len)\<close>, \<open>(cake_width, cake_len)\<close>
  and \<open>(cake_width, 0)\<close>; no geometry primitive is called.
\<close>

theorem cuts_to_polygons_empty:
  "cuts_to_polygons g [] cake_len cake_width =
     Inr [Polygon [(0, 0), (0, cake_len), (cake_width, cake_len), (cake_width, 0)]]"
  by (simp add: cuts_to_polygons_def)

subsection \<open>sneak on one edge\<close>

lemma nearest_edge_y_on_edge:
  assumes "\<And>x. sub x 0 = x" and "\<And>x. sub x x = 0"
    and "0 < cake_len" and "snd p = 0 \<or> snd p = cake_len"
  shows "nearest_edge_y sub p cake_len = (snd p, 0)"
  using assms by (auto simp: nearest_edge_y_def)

lemma nearest_edge_x_on_edge:
  assumes "\<And>x. sub x 0 = x" and "\<And>x. sub x x = 0"
    and "0 < cake_width" and "fst p = 0 \<or> fst p = cake_width"
  shows "nearest_edge_x sub p cake_width = (fst p, 0)"
  using assms by (auto simp: nearest_edge_x_def)

lemma sneak_horizontal_edge:
  assumes "\<And>x. sub x 0 = x" and "\<And>x. sub x x = 0"
    and "0 < cake_len" and "snd s = 0 \<or> snd s = cake_len" and "snd e = snd s"
  shows "sneak sub s e cake_width cake_len =
           (if snd (nearest_edge_x sub s cake_width) > 1 / 10 \<or>
               fst (nearest_edge_x sub s cake_width) \<noteq> fst (nearest_edge_x sub e cake_width)
            then [(fst (nearest_edge_x sub e cake_width), bounce sub (snd s)), e] else [e])"
proof -
  have ys: "nearest_edge_y sub s cake_len = (snd s, 0)"
    using assms by (simp add: nearest_edge_y_on_edge)
  have ye: "nearest_edge_y sub e cake_len = (snd s, 0)"
    using assms nearest_edge_y_on_edge [of sub cake_len e] by simp
  show ?thesis
    by (simp add: sneak_def ys ye Let_def split_beta)
qed

lemma sneak_vertical_edge:
  assumes "\<And>x. sub x 0 = x" and "\<And>x. sub x x = 0"
    and "0 < cake_width" and "fst s = 0 \<or> fst s = cake_width" and "fst e = fst s"
  shows "sneak sub s e cake_width cake_len =
           (if snd (nearest_edge_y sub s cake_len) > 1 / 10 \<or>
               fst (nearest_edge_y sub s cake_len) \<noteq> fst (nearest_edge_y sub e cake_len)
            then [(bounce sub (fst s), fst (nearest_edge_y sub e cake_len)), e] else [e])"
proof -
  have xs: "nearest_edge_x sub s cake_width = (fst s, 0)"
    using assms by (simp add: nearest_edge_x_on_edge)
  have xe: "nearest_edge_x sub e cake_width = (fst s, 0)"
    using assms nearest_edge_x_on_edge [of sub cake_width e] by simp
  show ?thesis
    by (simp add: sneak_def xs xe Let_def split_beta)
qed

text \<open>
  C7, as stated, fails: from \<open>(30, 0)\<close> to \<open>(70, 0)\<close>, both on the edge \<open>y = 0\<close> of a
  100 by 100 domain, \<open>sneak\<close> emits the waypoint \<open>(100, 0.01)\<close> before the end position.
  The subtractions of this run, \<open>100 - 30\<close>, \<open>100 - 70\<close> and \<open>100 - 0\<close>, are exact in binary64.
\<close>

theorem sneak_same_edge_waypoint:
  "on_same_edge (30, 0) (70, 0) 100 100 \<and>
   sneak (-) (30, 0) (70, 0) 100 100 = [(100, 1 / 100), (70, 0)] \<and>
   sneak (-) (30, 0) (70, 0) 100 100 \<noteq> [(70, 0)]"
  by (simp add: on_same_edge_def sneak_def nearest_edge_x_def nearest_edge_y_def bounce_def
      Let_def)

text \<open>
  C7, amended. When the start and the end position lie on one edge of a domain of
  positive extents, \<open>sneak\<close> emits at most one intermediate waypoint. With \<open>x_dist\<close> and
  \<open>nearest_x\<close> the distance and the side that \<open>nearest_edge_x\<close> computes for the start, in
  floating point, and \<open>end_x\<close> the side it computes for the end position: on the top or
  bottom edge \<open>sneak\<close> returns the end position alone when \<open>x_dist > 0.1\<close> is false and
  \<open>nearest_x = end_x\<close>, and otherwise the waypoint \<open>(end_x, bounce(y))\<close>, \<open>y\<close> the
  coordinate of the common edge, followed by the end position; on the left or right edge
  the same holds with the axes exchanged. Here \<open>bounce(0) = 0.01\<close> and
  \<open>bounce(m) = round(m - 0.01, 2)\<close> otherwise.
\<close>

theorem sneak_same_edge:
  assumes "\<And>x. sub x 0 = x" and "\<And>x. sub x x = 0"
    and "0 < cake_width" and "0 < cake_len"
  shows "((snd s = 0 \<or> snd s = cake_len) \<and> snd e = snd s \<longrightarrow>
            sneak sub s e cake_width cake_len =
              (if snd (nearest_edge_x sub s cake_width) > 1 / 10 \<or>
                  fst (nearest_edge_x sub s cake_width) \<noteq>
                    fst (nearest_edge_x sub e cake_width)
               then [(fst (nearest_edge_x sub e cake_width), bounce sub (snd s)), e]
               else [e])) \<and>
         ((fst s = 0 \<or> fst s = cake_width) \<and> fst e = fst s \<longrightarrow>
            sneak sub s e cake_width cake_len =
              (if snd (nearest_edge_y sub s cake_len) > 1 / 10 \<or>
                  fst (nearest_edge_y sub s cake_len) \<noteq>
                    fst (nearest_edge_y sub e cake_len)
               then [(bounce sub (fst s), fst (nearest_edge_y sub e cake_len)), e]
               else [e]))"
  using assms sneak_horizontal_edge [of sub cake_len s e cake_width]
    sneak_vertical_edge [of sub cake_width s e cake_len]
  by blast

theorem sneak_same_edge_witness:
  "sneak (-) (0, 10) (0, 90) 100 100 = [(1 / 100, 100), (0, 90)] \<and>
   sneak (-) (0, 0) (30, 0) 100 100 = [(30, 0)]"
  using sneak_same_edge [of "(-)" 100 100 "(0, 10)" "(0, 90)"]
    sneak_same_edge [of "(-)" 100 100 "(0, 0)" "(30, 0)"]
  by (simp add: nearest_edge_x_def nearest_edge_y_def bounce_def)

subsection \<open>The penalty is the sum of the request terms\<close>

lemma calculate_penalty_loop_sum:
  assumes "\<forall>(i, a) \<in> set ias. i < length requests \<and> requests ! i \<noteq> 0 \<and>
             - 1 \<le> a \<and> a < int (length polygons)"
  shows "calculate_penalty_loop g requests polygons tolerance ias acc =
           Inr (acc + (\<Sum>(i, a) \<leftarrow> ias. request_penalty g requests polygons tolerance i a))"
  using assms
proof (induction ias arbitrary: acc)
  case Nil
  then show ?case by simp
next
  case (Cons ia ias)
  obtain i a where ia: "ia = (i, a)" by (cases ia)
  from Cons.prems ia have i: "i < length requests" and r: "requests ! i \<noteq> 0"
    and a: "- 1 \<le> a" "a < int (length polygons)" by auto
  from Cons.prems have rest: "\<forall>(i, a) \<in> set ias. i < length requests \<and> requests ! i \<noteq> 0 \<and>
             - 1 \<le> a \<and> a < int (length polygons)" by simp
  note IH = Cons.IH [OF rest]
  show ?case
  proof (cases "a = - 1")
    case True
    then show ?thesis by (simp add: ia IH request_penalty_def)
  next
    case False
    with a have pa: "py_index polygons a = Inr (polygons ! nat a)"
      by (simp add: py_index_def)
    from i have pr: "py_index requests (int i) = Inr (requests ! i)"
      by (simp add: py_index_def)
    show ?thesis
      using False r by (simp add: ia IH pa pr request_penalty_def Let_def)
  qed
qed

lemma sum_list_enumerate:
  "(\<Sum>(i, a) \<leftarrow> enumerate 0 xs. f i a) = (\<Sum>i < length xs. f i (xs ! i))"
proof -
  have "(\<Sum>(i, a) \<leftarrow> enumerate 0 xs. f i a) =
          (\<Sum>k = 0..<length xs. map (\<lambda>(i, a). f i a) (enumerate 0 xs) ! k)"
    by (simp add: sum_list_sum_nth)
  also have "\<dots> = (\<Sum>k = 0..<length xs. f k (xs ! k))"
    by (rule sum.cong) (simp_all add: nth_enumerate_eq)
  finally show ?thesis by (simp add: lessThan_atLeast0)
qed

text \<open>
  C5. With an assignment per request, each \<open>-1\<close> or the index of a piece, and non-zero
  requests, the computed penalty is the sum over the requests of: 100 when the request is
  unassigned or its piece fails the plate check; else the percentage
  \<open>100 * |piece.area - request| / request\<close> when it strictly exceeds the tolerance; else 0.
  A piece of area below 0.25 passes the plate check whatever the enclosing-circle
  primitive would return; any other piece passes exactly when its enclosing-circle radius
  is at most 12.5.
\<close>

theorem calculate_penalty_spec:
  assumes "length (assign_func polygons requests tolerance) = length requests"
    and "\<forall>a \<in> set (assign_func polygons requests tolerance). - 1 \<le> a \<and> a < int (length polygons)"
    and "\<forall>r \<in> set requests. r \<noteq> 0"
  shows "calculate_penalty g assign_func requests polygons tolerance =
           Inr (spec_penalty g requests polygons tolerance
                  (assign_func polygons requests tolerance)) \<and>
         (area g piece < 1 / 4 \<longrightarrow>
            can_cake_fit_in_plate (g\<lparr>miniball_radius := mb\<rparr>) piece (25 / 2)) \<and>
         (\<not> area g piece < 1 / 4 \<longrightarrow>
            can_cake_fit_in_plate g piece (25 / 2) = (miniball_radius g piece \<le> 25 / 2))"
proof -
  let ?as = "assign_func polygons requests tolerance"
  have "\<forall>(i, a) \<in> set (enumerate 0 ?as). i < length requests \<and> requests ! i \<noteq> 0 \<and>
          - 1 \<le> a \<and> a < int (length polygons)"
    using assms by (auto simp: in_set_enumerate_eq)
  then have "calculate_penalty g assign_func requests polygons tolerance =
      Inr (\<Sum>(i, a) \<leftarrow> enumerate 0 ?as. request_penalty g requests polygons tolerance i a)"
    by (simp add: calculate_penalty_def calculate_penalty_loop_sum)
  then show ?thesis
    by (simp add: sum_list_enumerate spec_penalty_def can_cake_fit_in_plate_def)
qed

theorem calculate_penalty_spec_witness:
  "calculate_penalty
     \<lparr>convex_hull = (\<lambda>p. p), intersects = (\<lambda>l p. False),
      split = (\<lambda>p l. Inl GeometryError), area = (\<lambda>p. 50), miniball_radius = (\<lambda>p. 6)\<rparr>
     (\<lambda>ps rs t. [0, - 1]) [40, 50] [Polygon [(0, 0), (0, 10), (5, 10), (5, 0)]] 5 = Inr 125"
  using calculate_penalty_spec
    [of "\<lambda>ps rs t. [0, - 1]" "[Polygon [(0, 0), (0, 10), (5, 10), (5, 0)]]" "[40, 50]" 5
      "\<lparr>convex_hull = (\<lambda>p. p), intersects = (\<lambda>l p. False),
        split = (\<lambda>p l. Inl GeometryError), area = (\<lambda>p. 50), miniball_radius = (\<lambda>p. 6)\<rparr>"]
  by (simp add: spec_penalty_def request_penalty_def can_cake_fit_in_plate_def
      lessThan_Suc numeral_2_eq_2)

subsection \<open>A cut along one edge\<close>

text \<open>
  C2 fails on the code: a corner belongs to two edge lists and only the first one that
  holds \<open>from_point\<close> is removed from the population of \<open>to_point\<close>. On a 100 by 100
  domain with 6 points per edge, the draw of the corner \<open>(0, 0)\<close>, found in \<open>LEFT\<close>,
  followed by the draw of \<open>(20, 0)\<close> gives the cut \<open>(0, 0)\<close>-\<open>(20, 0)\<close>, which runs along
  the edge \<open>y = 0\<close>.
\<close>

theorem generate_cuts_same_edge_cut:
  "map_option (map_sum id fst)
     (generate_cuts 1 100 100 6 \<lparr>ints = (\<lambda>n. if n = 0 then 8 else 4), floats = (\<lambda>n. 0)\<rparr>)
     = Some (Inr [((0, 0), (20, 0))]) \<and>
   on_same_edge (0, 0) (20, 0) 100 100"
  by (simp add: generate_cuts_def generate_cuts_loop.simps draw_cut_def sample1_def
      points_of_def LEFT_def RIGHT_def UP_def DOWN_def to_points_def round2_def Let_def
      add_cut_def skip_ints_def upt_rec on_same_edge_def)

subsection \<open>Termination of the rejection loop\<close>

lemma round2_0 [simp]: "round2 0 = 0"
  by (simp add: round2_def)

lemma corner_in_LEFT: "0 < jumps \<Longrightarrow> (0, 0) \<in> set (LEFT cake_len cake_width jumps)"
  by (auto simp: LEFT_def image_iff intro!: bexI [of _ 0])

lemma corner_in_RIGHT: "0 < jumps \<Longrightarrow> (cake_width, 0) \<in> set (RIGHT cake_len cake_width jumps)"
  by (auto simp: RIGHT_def image_iff intro!: bexI [of _ 0])

lemma corner_in_UP: "0 < jumps \<Longrightarrow> (0, 0) \<in> set (UP cake_len cake_width jumps)"
  by (auto simp: UP_def image_iff intro!: bexI [of _ 0])

lemma corner_in_DOWN: "0 < jumps \<Longrightarrow> (0, cake_len) \<in> set (DOWN cake_len cake_width jumps)"
  by (auto simp: DOWN_def image_iff intro!: bexI [of _ 0])

lemma set_points_of:
  "set (points_of cake_len cake_width jumps) =
     set (LEFT cake_len cake_width jumps) \<union> set (RIGHT cake_len cake_width jumps) \<union>
     set (UP cake_len cake_width jumps) \<union> set (DOWN cake_len cake_width jumps)"
  by (auto simp: points_of_def)

lemma points_of_nonempty: "0 < jumps \<Longrightarrow> points_of cake_len cake_width jumps \<noteq> []"
  using corner_in_LEFT [of jumps cake_len cake_width] set_points_of [of cake_len cake_width jumps]
  by (metis UnI1 empty_iff empty_set)

lemma fst_LEFT: "p \<in> set (LEFT cake_len cake_width jumps) \<Longrightarrow> fst p = 0"
  by (auto simp: LEFT_def)

lemma fst_RIGHT: "p \<in> set (RIGHT cake_len cake_width jumps) \<Longrightarrow> fst p = cake_width"
  by (auto simp: RIGHT_def)

lemma snd_UP: "p \<in> set (UP cake_len cake_width jumps) \<Longrightarrow> snd p = 0"
  by (auto simp: UP_def)

lemma snd_DOWN: "p \<in> set (DOWN cake_len cake_width jumps) \<Longrightarrow> snd p = cake_len"
  by (auto simp: DOWN_def)

lemma to_points_nonempty:
  assumes "0 < jumps" and "0 < cake_len" and "0 < cake_width"
  shows "to_points cake_len cake_width jumps p \<noteq> []"
proof -
  let ?pts = "points_of cake_len cake_width jumps"
  have a: "(cake_width, 0) \<in> set ?pts" "(cake_width, 0) \<notin> set (LEFT cake_len cake_width jumps)"
    using assms corner_in_RIGHT [of jumps cake_width cake_len] fst_LEFT [of "(cake_width, 0)" cake_len cake_width jumps]
    by (auto simp: set_points_of)
  have b: "(0, 0) \<in> set ?pts" "(0, 0) \<notin> set (RIGHT cake_len cake_width jumps)"
    "(0, 0) \<notin> set (DOWN cake_len cake_width jumps)"
    using assms corner_in_LEFT [of jumps cake_len cake_width] fst_RIGHT [of "(0, 0)" cake_len cake_width jumps]
      snd_DOWN [of "(0, 0)" cake_len cake_width jumps]
    by (auto simp: set_points_of)
  have c: "(0, cake_len) \<in> set ?pts" "(0, cake_len) \<notin> set (UP cake_len cake_width jumps)"
    using assms corner_in_DOWN [of jumps cake_len cake_width] snd_UP [of "(0, cake_len)" cake_len cake_width jumps]
    by (auto simp: set_points_of)
  show ?thesis
    using a b c by (auto simp: to_points_def Let_def filter_empty_conv)
qed

lemma skip_ints_skip_ints: "skip_ints a (skip_ints b r) = skip_ints (a + b) r"
  by (simp add: skip_ints_def add.assoc)

lemma ints_skip_ints [simp]: "ints (skip_ints n r) k = ints r (k + n)"
  by (simp add: skip_ints_def)

lemma draw_cut_eq:
  assumes "0 < jumps" and "0 < cake_len" and "0 < cake_width"
  shows "draw_cut cake_len cake_width jumps r =
           Inr (nth_draw cake_len cake_width jumps r 0, skip_ints 2 r)"
  using assms
  by (simp add: draw_cut_def sample1_def points_of_nonempty to_points_nonempty nth_draw_def
      Let_def skip_ints_skip_ints numeral_2_eq_2)

lemma nth_draw_skip:
  "nth_draw cake_len cake_width jumps (skip_ints (2 * s) r) t =
     nth_draw cake_len cake_width jumps r (t + s)"
  by (simp add: nth_draw_def Let_def algebra_simps)

lemma nth_draw_in_all_draws:
  assumes "0 < jumps" and "0 < cake_len" and "0 < cake_width"
  shows "nth_draw cake_len cake_width jumps r t \<in> set (all_draws cake_len cake_width jumps)"
proof -
  let ?pts = "points_of cake_len cake_width jumps"
  let ?p = "?pts ! (ints r (2 * t) mod length ?pts)"
  let ?tos = "to_points cake_len cake_width jumps ?p"
  have "?p \<in> set ?pts"
    using assms by (simp add: points_of_nonempty)
  moreover have "?tos ! (ints r (2 * t + 1) mod length ?tos) \<in> set ?tos"
    using assms by (simp add: to_points_nonempty)
  ultimately show ?thesis
    by (auto simp: nth_draw_def all_draws_def Let_def)
qed

lemma fair_draws_skip:
  assumes "fair_draws cake_len cake_width jumps r"
  shows "fair_draws cake_len cake_width jumps (skip_ints (2 * s) r)"
  unfolding fair_draws_def
proof (intro ballI allI)
  fix c m
  assume "c \<in> set (all_draws cake_len cake_width jumps)"
  with assms obtain t where t: "m + s \<le> t" "nth_draw cake_len cake_width jumps r t = c"
    unfolding fair_draws_def by blast
  then have "m \<le> t - s" "nth_draw cake_len cake_width jumps (skip_ints (2 * s) r) (t - s) = c"
    by (simp_all add: nth_draw_skip)
  then show "\<exists>t\<ge>m. nth_draw cake_len cake_width jumps (skip_ints (2 * s) r) t = c"
    by blast
qed

lemma unordered_eq_iff:
  "unordered c = unordered d \<longleftrightarrow> d = (fst c, snd c) \<or> d = (snd c, fst c)"
  by (cases c; cases d) (auto simp: unordered_def doubleton_eq_iff)

lemma add_cut_new:
  assumes "unordered c \<notin> unordered ` set selected"
  shows "add_cut selected c = selected @ [c]"
proof -
  have "(fst c, snd c) \<notin> set selected" "(snd c, fst c) \<notin> set selected"
    using assms unordered_eq_iff [of c] by (metis image_eqI)+
  then show ?thesis by (simp add: add_cut_def)
qed

lemma add_cut_old:
  assumes "unordered c \<in> unordered ` set selected"
  shows "add_cut selected c = selected"
proof -
  from assms obtain d where "d \<in> set selected" "unordered c = unordered d" by blast
  then have "(fst c, snd c) \<in> set selected \<or> (snd c, fst c) \<in> set selected"
    by (auto simp: unordered_eq_iff)
  then show ?thesis by (auto simp: add_cut_def)
qed

lemma distinct_cuts_add_cut:
  assumes "distinct_cuts cake_len cake_width jumps selected"
    and "c \<in> set (all_draws cake_len cake_width jumps)"
  shows "distinct_cuts cake_len cake_width jumps (add_cut selected c)"
proof (cases "unordered c \<in> unordered ` set selected")
  case True
  then show ?thesis using assms by (simp add: add_cut_old)
next
  case False
  then show ?thesis using assms by (simp add: add_cut_new distinct_cuts_def)
qed

lemma distinct_cuts_length:
  assumes "distinct_cuts cake_len cake_width jumps selected"
  shows "length selected \<le> drawable_cut_count cake_len cake_width jumps"
proof -
  have "length selected = card (unordered ` set selected)"
    using assms by (metis distinct_cuts_def distinct_card length_map list.set_map)
  also have "\<dots> \<le> card (unordered ` set (all_draws cake_len cake_width jumps))"
    using assms by (intro card_mono) (auto simp: distinct_cuts_def)
  finally show ?thesis by (simp add: drawable_cut_count_def)
qed

lemma loop_step:
  assumes "0 < jumps" and "0 < cake_len" and "0 < cake_width" and "length selected < cuts"
  shows "generate_cuts_loop cuts cake_len cake_width jumps selected r =
           generate_cuts_loop cuts cake_len cake_width jumps
             (add_cut selected (nth_draw cake_len cake_width jumps r 0)) (skip_ints 2 r)"
  using assms by (subst generate_cuts_loop.simps) (simp add: draw_cut_eq)

lemma loop_progress:
  assumes "0 < jumps" and "0 < cake_len" and "0 < cake_width"
    and "distinct_cuts cake_len cake_width jumps selected"
    and "length selected < cuts"
    and "unordered (nth_draw cake_len cake_width jumps r t) \<notin> unordered ` set selected"
  shows "\<exists>selected' s.
           generate_cuts_loop cuts cake_len cake_width jumps selected r =
             generate_cuts_loop cuts cake_len cake_width jumps selected' (skip_ints (2 * s) r) \<and>
           length selected' = Suc (length selected) \<and>
           distinct_cuts cake_len cake_width jumps selected'"
  using assms(6)
proof (induction t arbitrary: r)
  case 0
  let ?c = "nth_draw cake_len cake_width jumps r 0"
  have "add_cut selected ?c = selected @ [?c]"
    using 0 by (rule add_cut_new)
  moreover have "distinct_cuts cake_len cake_width jumps (add_cut selected ?c)"
    using assms by (simp add: distinct_cuts_add_cut nth_draw_in_all_draws)
  ultimately show ?case
    using loop_step [OF assms(1-3) assms(5), of r]
    by (intro exI [of _ "selected @ [?c]"] exI [of _ 1]) simp
next
  case (Suc t)
  let ?c = "nth_draw cake_len cake_width jumps r 0"
  show ?case
  proof (cases "unordered ?c \<in> unordered ` set selected")
    case False
    then have "add_cut selected ?c = selected @ [?c]"
      by (rule add_cut_new)
    moreover have "distinct_cuts cake_len cake_width jumps (add_cut selected ?c)"
      using assms by (simp add: distinct_cuts_add_cut nth_draw_in_all_draws)
    ultimately show ?thesis
      using loop_step [OF assms(1-3) assms(5), of r]
      by (intro exI [of _ "selected @ [?c]"] exI [of _ 1]) simp
  next
    case True
    then have same: "add_cut selected ?c = selected"
      by (rule add_cut_old)
    have "nth_draw cake_len cake_width jumps (skip_ints (2 * 1) r) t =
            nth_draw cake_len cake_width jumps r (Suc t)"
      by (simp only: nth_draw_skip) simp
    with Suc.prems have
      "unordered (nth_draw cake_len cake_width jumps (skip_ints 2 r) t) \<notin> unordered ` set selected"
      by simp
    from Suc.IH [OF this] obtain selected' s where
      st: "generate_cuts_loop cuts cake_len cake_width jumps selected (skip_ints 2 r) =
             generate_cuts_loop cuts cake_len cake_width jumps selected'
               (skip_ints (2 * s) (skip_ints 2 r))"
      "length selected' = Suc (length selected)"
      "distinct_cuts cake_len cake_width jumps selected'"
      by blast
    have "skip_ints (2 * s) (skip_ints 2 r) = skip_ints (2 * Suc s) r"
      by (simp add: skip_ints_skip_ints)
    with st loop_step [OF assms(1-3) assms(5), of r] same show ?thesis
      by (intro exI [of _ selected'] exI [of _ "Suc s"]) simp
  qed
qed

lemma loop_terminates:
  assumes "0 < jumps" and "0 < cake_len" and "0 < cake_width"
    and "cuts \<le> drawable_cut_count cake_len cake_width jumps"
  shows "fair_draws cake_len cake_width jumps r \<Longrightarrow>
         distinct_cuts cake_len cake_width jumps selected \<Longrightarrow>
         length selected \<le> cuts \<Longrightarrow>
         \<exists>cs s. generate_cuts_loop cuts cake_len cake_width jumps selected r =
                  Some (Inr (cs, skip_ints (2 * s) r))
           \<and> length cs = cuts \<and> distinct_cuts cake_len cake_width jumps cs"
proof (induction "cuts - length selected" arbitrary: selected r)
  case 0
  then have "length selected = cuts" by simp
  moreover have "skip_ints (2 * 0) r = r"
    by (simp add: skip_ints_def)
  ultimately show ?case
    using 0 by (subst generate_cuts_loop.simps) (auto intro!: exI [of _ 0])
next
  case (Suc n)
  then have lt: "length selected < cuts" by simp
  let ?all = "unordered ` set (all_draws cake_len cake_width jumps)"
  have len: "length selected = card (unordered ` set selected)"
    using Suc.prems(2) by (metis distinct_cuts_def distinct_card length_map list.set_map)
  have "\<not> ?all \<subseteq> unordered ` set selected"
  proof
    assume "?all \<subseteq> unordered ` set selected"
    then have "card ?all \<le> card (unordered ` set selected)"
      by (intro card_mono) simp_all
    with len lt assms(4) show False by (simp add: drawable_cut_count_def)
  qed
  then obtain c where c: "c \<in> set (all_draws cake_len cake_width jumps)"
    "unordered c \<notin> unordered ` set selected"
    by blast
  from Suc.prems(1) c(1) obtain t where "nth_draw cake_len cake_width jumps r t = c"
    unfolding fair_draws_def by blast
  with c(2) have "unordered (nth_draw cake_len cake_width jumps r t) \<notin> unordered ` set selected"
    by simp
  from loop_progress [OF assms(1-3) Suc.prems(2) lt this] obtain selected' s where
    st: "generate_cuts_loop cuts cake_len cake_width jumps selected r =
           generate_cuts_loop cuts cake_len cake_width jumps selected' (skip_ints (2 * s) r)"
    "length selected' = Suc (length selected)"
    "distinct_cuts cake_len cake_width jumps selected'"
    by blast
  have "n = cuts - length selected'"
    using Suc.hyps(2) st(2) by simp
  moreover have "fair_draws cake_len cake_width jumps (skip_ints (2 * s) r)"
    using Suc.prems(1) by (rule fair_draws_skip)
  moreover have "length selected' \<le> cuts"
    using lt st(2) by simp
  ultimately obtain cs s' where
    "generate_cuts_loop cuts cake_len cake_width jumps selected' (skip_ints (2 * s) r) =
       Some (Inr (cs, skip_ints (2 * s') (skip_ints (2 * s) r)))"
    "length cs = cuts" "distinct_cuts cake_len cake_width jumps cs"
    using Suc.hyps(1) [of selected' "skip_ints (2 * s) r"] st(3) by blast
  moreover have "skip_ints (2 * s') (skip_ints (2 * s) r) = skip_ints (2 * (s' + s)) r"
    by (simp add: skip_ints_skip_ints algebra_simps)
  ultimately show ?case
    using st(1) by (intro exI [of _ cs] exI [of _ "s' + s"]) simp
qed

lemmas generate_cuts_loop_induct =
  generate_cuts_loop.raw_induct [rotated 1, consumes 1, case_names step]


lemma loop_returns_distinct:
  assumes "generate_cuts_loop cuts cake_len cake_width jumps selected r = Some y"
  shows "0 < jumps \<Longrightarrow> 0 < cake_len \<Longrightarrow> 0 < cake_width \<Longrightarrow>
         distinct_cuts cake_len cake_width jumps selected \<Longrightarrow> length selected \<le> cuts \<Longrightarrow>
         \<exists>cs r'. y = Inr (cs, r') \<and> length cs = cuts \<and>
           distinct_cuts cake_len cake_width jumps cs"
  using assms
proof (induction cuts cake_len cake_width jumps selected r y
    rule: generate_cuts_loop_induct)
  case (step loop cuts cake_len cake_width jumps selected r y)
  show ?case
  proof (cases "length selected < cuts")
    case False
    with step.prems step.hyps show ?thesis
      by auto
  next
    case True
    let ?c = "nth_draw cake_len cake_width jumps r 0"
    from True step.prems step.hyps have
      "loop cuts cake_len cake_width jumps (add_cut selected ?c) (skip_ints 2 r) = Some y"
      by (simp add: draw_cut_eq)
    moreover have "length (add_cut selected ?c) \<le> cuts"
      using True by (simp add: add_cut_def)
    ultimately show ?thesis
      using step.IH step.prems
      by (simp add: distinct_cuts_add_cut nth_draw_in_all_draws)
  qed
qed

lemma universal_ints_fair:
  assumes "0 < jumps" and "0 < cake_len" and "0 < cake_width" and "ints r = universal_ints"
  shows "fair_draws cake_len cake_width jumps r"
  unfolding fair_draws_def
proof (intro ballI allI)
  fix c m
  let ?pts = "points_of cake_len cake_width jumps"
  assume "c \<in> set (all_draws cake_len cake_width jumps)"
  then obtain p q where c: "c = (p, q)" "p \<in> set ?pts"
    "q \<in> set (to_points cake_len cake_width jumps p)"
    by (auto simp: all_draws_def)
  then obtain i k where i: "i < length ?pts" "?pts ! i = p"
    and k: "k < length (to_points cake_len cake_width jumps p)"
    "to_points cake_len cake_width jumps p ! k = q"
    by (metis in_set_conv_nth)
  let ?t = "prod_encode (i + length ?pts * m, k)"
  have "m \<le> length ?pts * m"
    using i(1) by (cases "length ?pts") simp_all
  then have "m \<le> ?t"
    using le_prod_encode_1 [of "i + length ?pts * m" k] by linarith
  moreover have "nth_draw cake_len cake_width jumps r ?t = c"
    using i k c(1) assms(4) by (simp add: nth_draw_def universal_ints_def Let_def)
  ultimately show "\<exists>t\<ge>m. nth_draw cake_len cake_width jumps r t = c"
    by blast
qed


lemma distinct_cuts_Nil: "distinct_cuts cake_len cake_width jumps []"
  by (simp add: distinct_cuts_def)









subsection \<open>Offspring that leave the domain\<close>

text \<open>
  C3 fails on the code for the second endpoint of a cut when it lies on the top or bottom
  edge: the test before the increase reads \<open>r[1]\<close> and \<open>cake_len\<close> where the first
  endpoint's branch reads \<open>l[0]\<close> and \<open>cake_width\<close>. On a domain of width 1 and length 100,
  from the two all-zero parents, the endpoint \<open>(0.91, 0)\<close> is moved to \<open>x = 1.01\<close>; on a
  100 by 100 domain, from a parent with offset 20, the endpoint \<open>(80, 0)\<close> is moved to
  \<open>x = 100.1\<close>. Both lie outside the domain.
\<close>

theorem create_offspring_leaves_domain:
  "map_sum id fst
     (create_offspring [((0, 50), (91 / 100, 0))] [((0, 0), (0, 0))] [((0, 0), (0, 0))] 100 1
        \<lparr>ints = (\<lambda>n. 0), floats = (\<lambda>n. if n = 0 then 0 else 1 / 4)\<rparr>)
     = Inr [((0, 0), (1 / 10, 0))] \<and>
   combined_cuts [((0, 50), (91 / 100, 0))] [((0, 0), (1 / 10, 0))]
     = Inr [((0, 50), (101 / 100, 0))] \<and>
   map_sum id fst
     (create_offspring [((0, 50), (80, 0))] [((0, 0), (20, 0))] [((0, 0), (20, 0))] 100 100
        \<lparr>ints = (\<lambda>n. 0), floats = (\<lambda>n. if n = 0 then 0 else 1 / 4)\<rparr>)
     = Inr [((0, 0), (201 / 10, 0))] \<and>
   combined_cuts [((0, 50), (80, 0))] [((0, 0), (201 / 10, 0))]
     = Inr [((0, 50), (1001 / 10, 0))]"
  by (simp add: create_offspring_def random_random_def skip_floats_def py_index_def mutate_def
      round_genome_def round2_def combined_cuts_def combine_point_def Let_def upt_rec)

subsection \<open>shake never returns a worse cut set\<close>









subsection \<open>shake returns\<close>






























subsection \<open>The cut count of the spam pass\<close>

lemma divide_each_flat:
  "divide_each flat_geometry a b ps acc = Inr (acc @ ps)"
  by (induction ps arbitrary: acc) (simp_all add: divide_polygon_def flat_geometry_def)

lemma cuts_to_polygons_loop_flat:
  "cuts_to_polygons_loop flat_geometry cs ps = Inr ps"
  by (induction cs) (simp_all add: divide_each_flat)

lemma penalty_flat:
  "penalty flat_geometry assign cs requests cake_len cake_width tolerance =
     penalty flat_geometry assign [] requests cake_len cake_width tolerance"
  by (simp add: penalty_def cuts_to_polygons_def cuts_to_polygons_loop_flat)

lemma generate_cuts_returns:
  assumes "2 \<le> jumps" and "0 < cake_len" and "0 < cake_width"
    and "cuts \<le> drawable_cut_count cake_len cake_width jumps"
    and "fair_draws cake_len cake_width jumps r"
  shows "\<exists>cs s. generate_cuts cuts cake_len cake_width jumps r =
                  Some (Inr (cs, skip_ints (2 * s) r)) \<and> length cs = cuts"
proof -
  from assms(1) have j: "0 < jumps" "jumps \<noteq> 1" by simp_all
  from loop_terminates [OF j(1) assms(2,3,4,5) distinct_cuts_Nil] j(2) show ?thesis
    by (auto simp: generate_cuts_def)
qed

lemma search_trials_return:
  assumes "0 < cake_len" and "0 < cake_width"
    and "cuts \<le> drawable_cut_count cake_len cake_width 6"
    and "\<And>cs. penalty g assign cs requests cake_len cake_width tolerance = Inr K"
  shows "fair_draws cake_len cake_width 6 r \<Longrightarrow>
         \<exists>bc bp s. search_trials g assign requests cake_len cake_width tolerance cuts n
                      [] bc0 bp0 r = Some (Inr ((bc, bp), skip_ints (2 * s) r)) \<and>
                    (n = 0 \<longrightarrow> bc = bc0 \<and> bp = bp0) \<and>
                    (0 < n \<longrightarrow> length bc = cuts \<and> bp = Fin K)"
proof (induction n arbitrary: bc0 bp0 r)
  case 0
  have "skip_ints (2 * 0) r = r" by (simp add: skip_ints_def)
  then show ?case by (auto intro!: exI [of _ 0])
next
  case (Suc n)
  from generate_cuts_returns [OF _ assms(1,2,3) Suc.prems] obtain cs s1 where
    g: "generate_cuts cuts cake_len cake_width 6 r = Some (Inr (cs, skip_ints (2 * s1) r))"
    and l: "length cs = cuts" by auto
  have f: "fair_draws cake_len cake_width 6 (skip_ints (2 * s1) r)"
    using Suc.prems by (rule fair_draws_skip)
  from Suc.IH [OF f, of cs "Fin K"] obtain bc bp s2 where
    t: "search_trials g assign requests cake_len cake_width tolerance cuts n
          [] cs (Fin K) (skip_ints (2 * s1) r) =
          Some (Inr ((bc, bp), skip_ints (2 * s2) (skip_ints (2 * s1) r)))"
    and z: "n = 0 \<longrightarrow> bc = cs \<and> bp = Fin K"
    and p: "0 < n \<longrightarrow> length bc = cuts \<and> bp = Fin K"
    by blast
  have "skip_ints (2 * s2) (skip_ints (2 * s1) r) = skip_ints (2 * (s2 + s1)) r"
    by (simp add: skip_ints_skip_ints algebra_simps)
  with t g assms(4) have
    "search_trials g assign requests cake_len cake_width tolerance cuts (Suc n)
       [] bc0 bp0 r = Some (Inr ((bc, bp), skip_ints (2 * (s2 + s1)) r))"
    by simp
  moreover have "length bc = cuts \<and> bp = Fin K"
    using z p l by (cases n) auto
  ultimately show ?case by blast
qed

lemma in_all_draws:
  "(p, q) \<in> set (all_draws cake_len cake_width jumps) \<longleftrightarrow>
     p \<in> set (points_of cake_len cake_width jumps) \<and>
     q \<in> set (to_points cake_len cake_width jumps p)"
  by (auto simp: all_draws_def)

lemma two_cuts_drawable:
  assumes "0 < jumps" and "0 < cake_len" and "0 < cake_width"
  shows "2 \<le> drawable_cut_count cake_len cake_width jumps"
proof -
  have l: "(0, 0) \<in> set (LEFT cake_len cake_width jumps)"
    using assms(1) by (rule corner_in_LEFT)
  have r: "(cake_width, 0) \<in> set (RIGHT cake_len cake_width jumps)"
    using assms(1) by (rule corner_in_RIGHT)
  have d: "(0, cake_len) \<in> set (DOWN cake_len cake_width jumps)"
    using assms(1) by (rule corner_in_DOWN)
  have nl: "(cake_width, 0) \<notin> set (LEFT cake_len cake_width jumps)"
    using assms(3) fst_LEFT [of "(cake_width, 0)" cake_len cake_width jumps] by auto
  have nr: "(0, cake_len) \<notin> set (RIGHT cake_len cake_width jumps)"
    using assms(3) fst_RIGHT [of "(0, cake_len)" cake_len cake_width jumps] by auto
  have "((0, 0), (cake_width, 0)) \<in> set (all_draws cake_len cake_width jumps)"
    using l r nl by (simp add: in_all_draws to_points_def set_points_of)
  moreover have "((cake_width, 0), (0, cake_len)) \<in> set (all_draws cake_len cake_width jumps)"
    using r d nl nr by (simp add: in_all_draws to_points_def set_points_of)
  moreover have "unordered ((0, 0), (cake_width, 0)) \<noteq> unordered ((cake_width, 0), (0, cake_len))"
    using assms(2,3) by (auto simp: unordered_def doubleton_eq_iff)
  ultimately have "distinct_cuts cake_len cake_width jumps
      [((0, 0), (cake_width, 0)), ((cake_width, 0), (0, cake_len))]"
    by (simp add: distinct_cuts_def)
  from distinct_cuts_length [OF this] show ?thesis by simp
qed

lemma search_three_requests:
  assumes "0 < cake_len" and "0 < cake_width"
    and "\<And>cs. penalty g assign cs requests cake_len cake_width tolerance = Inr K"
    and "fair_draws cake_len cake_width 6 r"
    and "length requests = 3"
  shows "\<exists>st s. best_combo_search g assign requests cake_len cake_width tolerance r =
                   Some (Inr (st, skip_ints (2 * s) r)) \<and>
                 s_best_cut_no st = 1 \<and> s_cuts st = Some 2 \<and> length (s_best_cuts st) = 1 \<and>
                 s_min_penalty st = Fin K"
proof -
  have counts: "get_cuts_spread requests = (1, 2)"
    using assms(5) by (simp add: get_cuts_spread_def)
  have range: "map nat [1..2] = [1, 2]"
    by (simp add: upto.simps)
  have two: "2 \<le> drawable_cut_count cake_len cake_width 6"
    using assms(1,2) by (intro two_cuts_drawable) simp_all
  then have one: "1 \<le> drawable_cut_count cake_len cake_width 6"
    by simp
  from search_trials_return [OF assms(1,2) one assms(3,4), of 200 "[]" PosInf]
  obtain bc1 s1 where
    t1: "search_trials g assign requests cake_len cake_width tolerance 1 200 [] [] PosInf r =
           Some (Inr ((bc1, Fin K), skip_ints (2 * s1) r))"
    and l1: "length bc1 = 1"
    by auto
  have f1: "fair_draws cake_len cake_width 6 (skip_ints (2 * s1) r)"
    using assms(4) by (rule fair_draws_skip)
  from search_trials_return [OF assms(1,2) two assms(3) f1, of 200 "[]" PosInf]
  obtain bc2 s2 where
    t2: "search_trials g assign requests cake_len cake_width tolerance 2 200 [] [] PosInf
           (skip_ints (2 * s1) r) =
           Some (Inr ((bc2, Fin K), skip_ints (2 * s2) (skip_ints (2 * s1) r)))"
    by auto
  have sk: "skip_ints (2 * s2) (skip_ints (2 * s1) r) = skip_ints (2 * (s2 + s1)) r"
    by (simp add: skip_ints_skip_ints algebra_simps)
  from l1 have ne: "bc1 \<noteq> []" by auto
  have "best_combo_search g assign requests cake_len cake_width tolerance r =
          Some (Inr (\<lparr>s_best_cuts = bc1, s_min_penalty = Fin K, s_best_cut_no = 1,
                      s_cuts = Some 2\<rparr>,
                     skip_ints (2 * (s2 + s1)) r))"
    using t1 t2 ne sk by (simp add: best_combo_search_def counts range)
  with l1 show ?thesis by (intro exI [of _ "\<lparr>s_best_cuts = bc1, s_min_penalty = Fin K,
      s_best_cut_no = 1, s_cuts = Some 2\<rparr>"] exI [of _ "s2 + s1"]) simp
qed

lemma spam_trials_return:
  assumes "0 < cake_len" and "0 < cake_width"
    and "cuts \<le> drawable_cut_count cake_len cake_width 12"
    and "\<And>cs. penalty g assign cs requests cake_len cake_width tolerance = Inr K"
  shows "fair_draws cake_len cake_width 12 r \<Longrightarrow>
         \<exists>s. spam_trials g assign requests cake_len cake_width tolerance cuts n
                bc (Fin K) r = Some (Inr ((bc, Fin K), skip_ints (2 * s) r))"
proof (induction n arbitrary: r)
  case 0
  have "skip_ints (2 * 0) r = r" by (simp add: skip_ints_def)
  then show ?case by (auto intro!: exI [of _ 0])
next
  case (Suc n)
  from generate_cuts_returns [OF _ assms(1,2,3) Suc.prems] obtain cs s1 where
    g: "generate_cuts cuts cake_len cake_width 12 r = Some (Inr (cs, skip_ints (2 * s1) r))"
    by auto
  have f: "fair_draws cake_len cake_width 12 (skip_ints (2 * s1) r)"
    using Suc.prems by (rule fair_draws_skip)
  from Suc.IH [OF f] obtain s2 where
    t: "spam_trials g assign requests cake_len cake_width tolerance cuts n
          bc (Fin K) (skip_ints (2 * s1) r) =
          Some (Inr ((bc, Fin K), skip_ints (2 * s2) (skip_ints (2 * s1) r)))"
    by blast
  have "skip_ints (2 * s2) (skip_ints (2 * s1) r) = skip_ints (2 * (s2 + s1)) r"
    by (simp add: skip_ints_skip_ints algebra_simps)
  with t g assms(4) have
    "spam_trials g assign requests cake_len cake_width tolerance cuts (Suc n)
       bc (Fin K) r = Some (Inr ((bc, Fin K), skip_ints (2 * (s2 + s1)) r))"
    by simp
  then show ?case by blast
qed

text \<open>Every cut set that the spam pass adopts has the cut count the pass was given.\<close>

lemma spam_trials_adopts:
  assumes "0 < cake_len" and "0 < cake_width"
  shows "spam_trials g assign requests cake_len cake_width tolerance cuts n bc mp r =
           Some (Inr ((bc', mp'), r')) \<Longrightarrow> bc' = bc \<or> length bc' = cuts"
proof (induction n arbitrary: bc mp r)
  case 0
  then show ?case by simp
next
  case (Suc n)
  let ?gen = "generate_cuts cuts cake_len cake_width 12 r"
  from Suc.prems obtain cs r1 where g: "?gen = Some (Inr (cs, r1))"
    by (cases ?gen) (auto split: sum.splits)
  then have "generate_cuts_loop cuts cake_len cake_width 12 [] r = Some (Inr (cs, r1))"
    by (simp add: generate_cuts_def)
  from loop_returns_distinct [OF this _ assms distinct_cuts_Nil] have l: "length cs = cuts"
    by simp
  let ?pen = "penalty g assign cs requests cake_len cake_width tolerance"
  from Suc.prems g obtain p where p: "?pen = Inr p"
    by (cases ?pen) auto
  show ?case
  proof (cases "float_lt (Fin p) mp")
    case True
    with Suc.prems g p have
      "spam_trials g assign requests cake_len cake_width tolerance cuts n cs (Fin p) r1 =
         Some (Inr ((bc', mp'), r'))"
      by simp
    from Suc.IH [OF this] l show ?thesis by auto
  next
    case False
    with Suc.prems g p have
      "spam_trials g assign requests cake_len cake_width tolerance cuts n bc mp r1 =
         Some (Inr ((bc', mp'), r'))"
      by simp
    from Suc.IH [OF this] show ?thesis .
  qed
qed

lemma search_loop_leaves_cuts:
  assumes "search_loop g assign requests cake_len cake_width tolerance counts st r =
             Some (Inr (st', r'))"
    and "counts \<noteq> []"
  shows "s_cuts st' = Some (last counts) \<or>
         (\<exists>c \<in> set counts. s_cuts st' = Some c \<and> s_best_cut_no st' + 5 < c)"
  using assms
proof (induction counts arbitrary: st r)
  case Nil
  then show ?case by simp
next
  case (Cons c rest)
  let ?st = "st\<lparr>s_cuts := Some c\<rparr>"
  show ?case
  proof (cases "s_best_cut_no ?st + 5 < c")
    case True
    with Cons.prems(1) have "st' = ?st" by (simp add: Let_def)
    with True show ?thesis by simp
  next
    case False
    let ?trials = "search_trials g assign requests cake_len cake_width tolerance c 200
                     [] [] PosInf r"
    from False Cons.prems(1) obtain bc bp r1 where
      t: "?trials = Some (Inr ((bc, bp), r1))"
      by (cases ?trials) (auto simp: Let_def split: sum.splits)
    have rest: ?thesis
      if l: "search_loop g assign requests cake_len cake_width tolerance rest st2 r1 =
               Some (Inr (st', r'))"
        and c: "s_cuts st2 = Some c" for st2
    proof (cases "rest = []")
      case True
      with l c show ?thesis by simp
    next
      case False
      from Cons.IH [OF l False] False show ?thesis by auto
    qed
    show ?thesis
    proof (cases "s_best_cuts st = [] \<or> float_lt bp (s_min_penalty st)")
      case True
      with False Cons.prems(1) t have
        "search_loop g assign requests cake_len cake_width tolerance rest
           (st\<lparr>s_cuts := Some c, s_best_cuts := bc, s_min_penalty := bp, s_best_cut_no := c\<rparr>)
           r1 = Some (Inr (st', r'))"
        by (simp add: Let_def)
      then show ?thesis by (rule rest) simp
    next
      case keep: False
      with False Cons.prems(1) t have
        "search_loop g assign requests cake_len cake_width tolerance rest
           (st\<lparr>s_cuts := Some c\<rparr>) r1 = Some (Inr (st', r'))"
        by (simp add: Let_def)
      then show ?thesis by (rule rest) simp
    qed
  qed
qed

lemma penalty_flat_three:
  "penalty flat_geometry (\<lambda>ps rs t. [0, - 1, - 1]) cs [30, 30, 40] 10 10 0 = Inr (1300 / 3)"
  by (subst penalty_flat)
    (simp add: penalty_def cuts_to_polygons_def calculate_penalty_def flat_geometry_def
      can_cake_fit_in_plate_def py_index_def)

text \<open>
  C1 fails on the code: \<open>best_combo\<close> hands the spam pass \<open>cuts\<close>, the loop variable
  of the search, and not \<open>best_cut_no\<close>. On three requests the counts are 1 and 2; in a
  run where the trials of both counts score the same, the search ends with
  \<open>best_cut_no = 1\<close> and a best cut set of 1 cut, and \<open>best_combo\<close> then runs the 2000
  trials of the spam pass at count 2: the pass returns, and the candidate of its first
  trial has 2 cuts.
\<close>

theorem best_combo_spam_count:
  "\<exists>st r1.
     best_combo_search flat_geometry (\<lambda>ps rs t. [0, - 1, - 1]) [30, 30, 40] 10 10 0
       \<lparr>ints = universal_ints, floats = (\<lambda>n. 0)\<rparr> = Some (Inr (st, r1)) \<and>
     s_best_cut_no st = 1 \<and> length (s_best_cuts st) = 1 \<and>
     best_combo flat_geometry (\<lambda>ps rs t. [0, - 1, - 1]) [30, 30, 40] 10 10 0
       \<lparr>ints = universal_ints, floats = (\<lambda>n. 0)\<rparr> =
       (case spam_trials flat_geometry (\<lambda>ps rs t. [0, - 1, - 1]) [30, 30, 40] 10 10 0
               2 2000 (s_best_cuts st) (s_min_penalty st) r1 of
          None \<Rightarrow> None
        | Some (Inl e) \<Rightarrow> Some (Inl e)
        | Some (Inr ((best_cuts, min_penalty), r2)) \<Rightarrow>
            shake flat_geometry (\<lambda>ps rs t. [0, - 1, - 1]) best_cuts [30, 30, 40] min_penalty
              10 10 0 r2) \<and>
     (\<exists>r2. spam_trials flat_geometry (\<lambda>ps rs t. [0, - 1, - 1]) [30, 30, 40] 10 10 0
              2 2000 (s_best_cuts st) (s_min_penalty st) r1 =
              Some (Inr ((s_best_cuts st, s_min_penalty st), r2))) \<and>
     (\<exists>cs r2. generate_cuts 2 10 10 12 r1 = Some (Inr (cs, r2)) \<and> length cs = 2)"
proof -
  let ?R = "\<lparr>ints = universal_ints, floats = (\<lambda>n. 0)\<rparr>"
  let ?A = "\<lambda>(ps :: polygon list) (rs :: rat list) (t :: rat). [0 :: int, - 1, - 1]"
  have f6: "fair_draws 10 10 6 ?R"
    by (rule universal_ints_fair) simp_all
  have f12: "fair_draws 10 10 12 ?R"
    by (rule universal_ints_fair) simp_all
  have two: "2 \<le> drawable_cut_count 10 10 12"
    by (rule two_cuts_drawable) simp_all
  from search_three_requests [OF _ _ penalty_flat_three f6] obtain st s where
    search: "best_combo_search flat_geometry ?A [30, 30, 40] 10 10 0 ?R =
               Some (Inr (st, skip_ints (2 * s) ?R))"
    and st: "s_best_cut_no st = 1" "s_cuts st = Some 2" "length (s_best_cuts st) = 1"
      "s_min_penalty st = Fin (1300 / 3)"
    by auto
  have f: "fair_draws 10 10 12 (skip_ints (2 * s) ?R)"
    using f12 by (rule fair_draws_skip)
  from spam_trials_return [OF _ _ two penalty_flat_three f, of 2000 "s_best_cuts st"] st(4)
  obtain s2 where spam:
    "spam_trials flat_geometry ?A [30, 30, 40] 10 10 0 2 2000 (s_best_cuts st)
       (s_min_penalty st) (skip_ints (2 * s) ?R) =
       Some (Inr ((s_best_cuts st, s_min_penalty st), skip_ints (2 * s2) (skip_ints (2 * s) ?R)))"
    by auto
  from generate_cuts_returns [OF _ _ _ two f] obtain cs s3 where
    gen: "generate_cuts 2 10 10 12 (skip_ints (2 * s) ?R) =
            Some (Inr (cs, skip_ints (2 * s3) (skip_ints (2 * s) ?R)))" "length cs = 2"
    by auto
  have combo: "best_combo flat_geometry ?A [30, 30, 40] 10 10 0 ?R =
       (case spam_trials flat_geometry ?A [30, 30, 40] 10 10 0
               2 2000 (s_best_cuts st) (s_min_penalty st) (skip_ints (2 * s) ?R) of
          None \<Rightarrow> None
        | Some (Inl e) \<Rightarrow> Some (Inl e)
        | Some (Inr ((best_cuts, min_penalty), r2)) \<Rightarrow>
            shake flat_geometry ?A best_cuts [30, 30, 40] min_penalty 10 10 0 r2)"
    unfolding best_combo_def search using st(2) by simp
  show ?thesis
    using search st(1,3) combo spam gen by blast
qed

end
